theory Spec2Isabelle
  imports Complex_Main "HOL-Library.Product_Lexorder" "HOL-Library.Multiset"
begin

section \<open>Venn-Abers calibration (hiclass/_calibration)\<close>

text \<open>
  The development embeds \<^verbatim>\<open>VennAbersCalibrator.py\<close> and the prediction path of
  \<^verbatim>\<open>Calibrator.py\<close>.

  Conventions of the embedding.
  \<^item> A float64 value is an exact rational (\<^typ>\<open>rat\<close>): rounding is not modelled.
    numpy's float division never raises; where the divisor is zero numpy yields
    \<open>inf\<close> or \<open>nan\<close>. Inside \<open>fit\<close> the quotient is written with HOL's total
    division; the row normalisation of the multiclass calibrator, where a zero
    divisor is reachable, returns \<open>None\<close> for a non-finite entry.
  \<^item> A label is an \<^typ>\<open>int\<close>; a numpy vector is a list. The geometric
    means of the cross calibrator are \<^typ>\<open>real\<close>.
  \<^item> A Python list used as a stack (top = last element) is a list whose head is
    the top.
  \<^item> Every exception of the source is a value of \<open>error\<close>; a function that can
    raise returns \<open>error + 'a\<close>.
\<close>

datatype error =
    AssertionError | ValueError | IndexError | KeyError
  | NotFittedError | AttributeError

type_synonym point = "rat \<times> rat"

subsection \<open>numpy helpers\<close>

text \<open>\<^verbatim>\<open>np.unique(a)\<close>: the sorted distinct values of \<open>a\<close>.\<close>

definition np_unique :: "'a::linorder list \<Rightarrow> 'a list" where
  "np_unique a = remdups_adj (sort a)"

text \<open>\<^verbatim>\<open>return_index\<close>: the index of the first occurrence of each unique value.\<close>

definition first_index :: "'a list \<Rightarrow> 'a \<Rightarrow> nat" where
  "first_index a u = length (takeWhile (\<lambda>x. x \<noteq> u) a)"

definition np_unique_index :: "'a::linorder list \<Rightarrow> nat list" where
  "np_unique_index a = map (first_index a) (np_unique a)"

text \<open>\<^verbatim>\<open>return_counts\<close>: how often each unique value occurs.\<close>

definition np_unique_counts :: "'a::linorder list \<Rightarrow> nat list" where
  "np_unique_counts a = map (\<lambda>u. length (filter (\<lambda>x. x = u) a)) (np_unique a)"

text \<open>
  \<^verbatim>\<open>np.lexsort([y, scores])\<close>: the indices that sort by \<open>scores\<close>, ties broken
  by \<open>y\<close>; the sort is stable. Keys of different lengths raise ValueError.
\<close>

definition np_lexsort :: "int list \<Rightarrow> rat list \<Rightarrow> error + nat list" where
  "np_lexsort y scores =
     (if length y \<noteq> length scores then Inl ValueError
      else Inr (sort_key (\<lambda>i. (scores ! i, y ! i)) [0..<length scores]))"

text \<open>\<^verbatim>\<open>np.cumsum\<close>.\<close>

fun cumsum_from :: "rat \<Rightarrow> rat list \<Rightarrow> rat list" where
  "cumsum_from acc [] = []"
| "cumsum_from acc (x # xs) = (acc + x) # cumsum_from (acc + x) xs"

definition np_cumsum :: "rat list \<Rightarrow> rat list" where
  "np_cumsum xs = cumsum_from 0 xs"

text \<open>
  \<^verbatim>\<open>np.searchsorted(a, v, side)\<close> on a sorted array: with \<open>side="left"\<close> the
  first index \<open>i\<close> with \<open>v \<le> a[i]\<close>, with \<open>side="right"\<close> the first index \<open>i\<close> with
  \<open>v < a[i]\<close>; \<open>len(a)\<close> when there is none.
\<close>

definition searchsorted_left :: "rat list \<Rightarrow> rat \<Rightarrow> nat" where
  "searchsorted_left a v = length (takeWhile (\<lambda>x. x < v) a)"

definition searchsorted_right :: "rat list \<Rightarrow> rat \<Rightarrow> nat" where
  "searchsorted_right a v = length (takeWhile (\<lambda>x. x \<le> v) a)"

text \<open>Indexing a vector at one position; out of range raises IndexError.\<close>

definition np_get :: "'a list \<Rightarrow> nat \<Rightarrow> error + 'a" where
  "np_get a i = (if i < length a then Inr (a ! i) else Inl IndexError)"

subsection \<open>Geometry of \<open>fit\<close>\<close>

definition point_addition :: "point \<Rightarrow> point \<Rightarrow> point" where
  "point_addition p1 p2 = (fst p1 + fst p2, snd p1 + snd p2)"

definition point_subtraction :: "point \<Rightarrow> point \<Rightarrow> point" where
  "point_subtraction p1 p2 = (fst p1 - fst p2, snd p1 - snd p2)"

definition slope :: "point \<Rightarrow> point \<Rightarrow> rat" where
  "slope tp next_to_top =
     (snd next_to_top - snd tp) / (fst next_to_top - fst tp)"

definition at_or_above :: "point \<Rightarrow> rat \<Rightarrow> point \<Rightarrow> point \<Rightarrow> bool" where
  "at_or_above p cur_slope tp next_to_top =
     (snd p \<ge> snd tp + cur_slope * (fst p - fst tp))"

text \<open>\<^verbatim>\<open>np.cross\<close> of two plane vectors.\<close>

definition np_cross :: "point \<Rightarrow> point \<Rightarrow> rat" where
  "np_cross a b = fst a * snd b - snd a * fst b"

definition non_left_angle_turn :: "point \<Rightarrow> point \<Rightarrow> point \<Rightarrow> bool" where
  "non_left_angle_turn next_to_top tp p_i =
     (np_cross (point_subtraction tp next_to_top) (point_subtraction p_i tp) \<le> 0)"

definition non_right_angle_turn :: "point \<Rightarrow> point \<Rightarrow> point \<Rightarrow> bool" where
  "non_right_angle_turn next_to_top tp p_i =
     (np_cross (point_subtraction tp next_to_top) (point_subtraction p_i tp) \<ge> 0)"

text \<open>
  The loop \<^verbatim>\<open>while len(stack) > 1 and turn(...): stack.pop()\<close>. The test receives
  \<open>stack[-1]\<close> and \<open>stack[-2]\<close>.
\<close>

fun pop_while :: "(point \<Rightarrow> point \<Rightarrow> bool) \<Rightarrow> point list \<Rightarrow> point list" where
  "pop_while turn (t # n # rest) =
     (if turn t n then pop_while turn (n # rest) else t # n # rest)"
| "pop_while turn stack = stack"

subsection \<open>\<open>compute_csd\<close>\<close>

text \<open>
  \<open>w\<close> is \<^verbatim>\<open>dict(zip(un_el, un_el_counts))\<close>, in which a later pair overrides an
  earlier one with the same key.
\<close>

definition label_rate ::
  "rat list \<Rightarrow> nat list \<Rightarrow> rat list \<Rightarrow> int list \<Rightarrow> rat list \<Rightarrow> nat \<Rightarrow> error + rat" where
  "label_rate un_el un_el_counts ocs ocl oucs j =
     (case np_get oucs j of Inl e \<Rightarrow> Inl e | Inr s_j \<Rightarrow>
      let matching_labels = map snd (filter (\<lambda>sl. fst sl = s_j) (zip ocs ocl)) in
      (case np_get un_el j of Inl e \<Rightarrow> Inl e | Inr key \<Rightarrow>
       (case map_of (rev (zip un_el un_el_counts)) key of
          None \<Rightarrow> Inl KeyError
        | Some w \<Rightarrow> Inr (of_int (sum_list matching_labels) / of_nat w))))"

fun collect :: "('a \<Rightarrow> error + 'b) \<Rightarrow> 'a list \<Rightarrow> error + 'b list" where
  "collect f [] = Inr []"
| "collect f (x # xs) =
     (case f x of Inl e \<Rightarrow> Inl e | Inr v \<Rightarrow>
      (case collect f xs of Inl e \<Rightarrow> Inl e | Inr vs \<Rightarrow> Inr (v # vs)))"

definition compute_csd ::
  "nat \<Rightarrow> rat list \<Rightarrow> nat list \<Rightarrow> rat list \<Rightarrow> int list \<Rightarrow> rat list \<Rightarrow> error + point list" where
  "compute_csd k_distinct un_el un_el_counts ocs ocl oucs =
     (case collect (label_rate un_el un_el_counts ocs ocl oucs) [0..<k_distinct] of
        Inl e \<Rightarrow> Inl e
      | Inr y \<Rightarrow>
          if length un_el_counts \<noteq> k_distinct then Inl ValueError
          else Inr ((0, 0) #
                 zip (np_cumsum (map of_nat un_el_counts))
                     (np_cumsum (map (\<lambda>(r, c). r * of_nat c) (zip y un_el_counts)))))"

subsection \<open>The corner stacks\<close>

definition initialize_f1_corners :: "point list \<Rightarrow> error + point list" where
  "initialize_f1_corners csd =
     (case csd of
        c0 # c1 # rest \<Rightarrow>
          Inr (foldl (\<lambda>stack p. p # pop_while (\<lambda>t n. non_left_angle_turn n t p) stack)
                 [c1, c0] rest)
      | _ \<Rightarrow> Inl IndexError)"

definition initialize_f0_corners :: "point list \<Rightarrow> error + point list" where
  "initialize_f0_corners csd =
     (case rev csd of
        cl # cl2 # rest \<Rightarrow>
          Inr (foldl (\<lambda>stack p. p # pop_while (\<lambda>t n. non_right_angle_turn n t p) stack)
                 [cl2, cl] rest)
      | _ \<Rightarrow> Inl IndexError)"

subsection \<open>\<open>compute_f1\<close> and \<open>compute_f0\<close>\<close>

text \<open>
  The state of either loop is the stack, the list \<open>csd\<close> (whose entries the loop
  rebinds) and the array being filled. The stack holds the point objects pushed
  earlier, so rebinding \<open>csd[i]\<close> does not change it.
\<close>

type_synonym fstate = "point list \<times> point list \<times> rat list"

definition f1_step :: "nat \<Rightarrow> fstate \<Rightarrow> error + fstate" where
  "f1_step i st =
     (case st of (stack, csd, F1) \<Rightarrow>
      (case stack of
         tp # next_to_top # rest \<Rightarrow>
           if i - 1 < length F1 \<and> i < length csd \<and> 2 \<le> i then
             let s = slope tp next_to_top;
                 F1' = F1[i - 1 := s];
                 p_temp = point_subtraction
                            (point_addition (csd ! (i - 2)) (csd ! i)) (csd ! (i - 1));
                 csd' = csd[i - 1 := p_temp]
             in if at_or_above p_temp s tp next_to_top then Inr (stack, csd', F1')
                else Inr (p_temp #
                            pop_while (\<lambda>t n. non_left_angle_turn p_temp t n)
                              (next_to_top # rest),
                          csd', F1')
           else Inl IndexError
       | _ \<Rightarrow> Inl IndexError))"

definition f0_step :: "nat \<Rightarrow> fstate \<Rightarrow> error + fstate" where
  "f0_step i st =
     (case st of (stack, csd, F0) \<Rightarrow>
      (case stack of
         tp # next_to_top # rest \<Rightarrow>
           if i < length F0 \<and> i + 1 < length csd \<and> 1 \<le> i then
             let s = slope tp next_to_top;
                 F0' = F0[i := s];
                 p = point_subtraction
                       (point_addition (csd ! (i - 1)) (csd ! (i + 1))) (csd ! i);
                 csd' = csd[i := p]
             in if at_or_above p s tp next_to_top then Inr (stack, csd', F0')
                else Inr (p #
                            pop_while (\<lambda>t n. non_right_angle_turn p t n)
                              (next_to_top # rest),
                          csd', F0')
           else Inl IndexError
       | _ \<Rightarrow> Inl IndexError))"

fun run_steps :: "(nat \<Rightarrow> fstate \<Rightarrow> error + fstate) \<Rightarrow> nat list \<Rightarrow> fstate \<Rightarrow> error + fstate" where
  "run_steps step [] st = Inr st"
| "run_steps step (i # is) st =
     (case step i st of Inl e \<Rightarrow> Inl e | Inr st' \<Rightarrow> run_steps step is st')"

definition compute_f1 :: "nat \<Rightarrow> point list \<Rightarrow> point list \<Rightarrow> error + rat list" where
  "compute_f1 k_distinct prev_stack csd =
     (case run_steps f1_step [2..<k_distinct + 2]
             (rev prev_stack, csd, replicate (k_distinct + 1) 0) of
        Inl e \<Rightarrow> Inl e
      | Inr (stack, csd', F1) \<Rightarrow> Inr F1)"

definition compute_f0 :: "nat \<Rightarrow> point list \<Rightarrow> point list \<Rightarrow> error + rat list" where
  "compute_f0 k_distinct prev_stack csd =
     (case run_steps f0_step (rev [1..<k_distinct + 1])
             (rev prev_stack, csd, replicate (k_distinct + 1) 0) of
        Inl e \<Rightarrow> Inl e
      | Inr (stack, csd', F0) \<Rightarrow> Inr F0)"

subsection \<open>The inductive Venn-Abers calibrator\<close>

text \<open>
  An attribute that \<open>__init__\<close> does not create is \<open>None\<close> until \<open>fit\<close> assigns it.
\<close>

record ivap =
  fitted :: bool
  k_distinct :: "nat option"
  F1 :: "rat list option"
  F0 :: "rat list option"
  unique_elements :: "rat list option"

definition ivap_init :: ivap where
  "ivap_init = \<lparr>fitted = False, k_distinct = None, F1 = None, F0 = None,
                 unique_elements = None\<rparr>"

definition binarize :: "int list \<Rightarrow> int list" where
  "binarize y = map (\<lambda>l. if l = 1 then 1 else 0) y"

text \<open>The body of \<open>fit\<close> after the labels have been checked and mapped.\<close>

definition fit_sorted :: "rat list \<Rightarrow> int list \<Rightarrow> error + ivap" where
  "fit_sorted ocs ocl =
     (let unique_elements = np_unique ocs;
          unique_idx = np_unique_index ocs;
          unique_element_counts = np_unique_counts ocs
      in case collect (np_get ocs) unique_idx of Inl e \<Rightarrow> Inl e | Inr oucs \<Rightarrow>
         let k = length unique_idx in
         (case compute_csd k unique_elements unique_element_counts ocs ocl oucs of
            Inl e \<Rightarrow> Inl e
          | Inr csd \<Rightarrow>
              let csd_0 = csd @ [(fst (last csd) + 1, snd (last csd) + 0)];
                  csd_1 = (- 1, - 1) # csd
              in (case initialize_f1_corners csd_1 of Inl e \<Rightarrow> Inl e | Inr f1_stack \<Rightarrow>
                 (case initialize_f0_corners csd_0 of Inl e \<Rightarrow> Inl e | Inr f0_stack \<Rightarrow>
                 (case compute_f1 k f1_stack csd_1 of Inl e \<Rightarrow> Inl e | Inr f1 \<Rightarrow>
                 (case compute_f0 k f0_stack csd_0 of Inl e \<Rightarrow> Inl e | Inr f0 \<Rightarrow>
                    Inr \<lparr>fitted = True, k_distinct = Some k, F1 = Some f1, F0 = Some f0,
                         unique_elements = Some unique_elements\<rparr>))))))"

text \<open>\<open>fit\<close> from the sort on, given the labels already mapped to 0 and 1.\<close>

definition fit_binary :: "int list \<Rightarrow> rat list \<Rightarrow> error + ivap" where
  "fit_binary y scores =
     (case np_lexsort y scores of Inl e \<Rightarrow> Inl e | Inr order_idx \<Rightarrow>
        fit_sorted (map (\<lambda>i. scores ! i) order_idx) (map (\<lambda>i. y ! i) order_idx))"

definition fit :: "int list \<Rightarrow> rat list \<Rightarrow> error + ivap" where
  "fit y scores =
     (let unique_labels = np_unique y in
      if \<not> length unique_labels \<le> 2 then Inl AssertionError
      else fit_binary (binarize y) scores)"

text \<open>
  \<open>predict_proba\<close> and \<open>predict_intervall\<close> share the two lookups. Reading an
  attribute that \<open>fit\<close> has not assigned raises AttributeError; an index array
  with an entry out of range raises IndexError.
\<close>

definition lookup_p0_p1 :: "ivap \<Rightarrow> rat list \<Rightarrow> error + (rat list \<times> rat list)" where
  "lookup_p0_p1 iv scores =
     (case unique_elements iv of None \<Rightarrow> Inl AttributeError | Some ue \<Rightarrow>
      let lower = map (searchsorted_left ue) scores;
          upper = map (\<lambda>s. searchsorted_right (butlast ue) s + 1) scores
      in (case F0 iv of None \<Rightarrow> Inl AttributeError | Some f0 \<Rightarrow>
         (case collect (np_get f0) lower of Inl e \<Rightarrow> Inl e | Inr p0 \<Rightarrow>
         (case F1 iv of None \<Rightarrow> Inl AttributeError | Some f1 \<Rightarrow>
         (case collect (np_get f1) upper of Inl e \<Rightarrow> Inl e | Inr p1 \<Rightarrow>
            Inr (p0, p1))))))"

definition predict_proba :: "ivap \<Rightarrow> rat list \<Rightarrow> error + rat list" where
  "predict_proba iv scores =
     (if \<not> fitted iv then Inl NotFittedError
      else (case lookup_p0_p1 iv scores of Inl e \<Rightarrow> Inl e
            | Inr (p0, p1) \<Rightarrow> Inr (map (\<lambda>(a, b). b / (1 - a + b)) (zip p0 p1))))"

definition predict_intervall :: "ivap \<Rightarrow> rat list \<Rightarrow> error + (rat \<times> rat) list" where
  "predict_intervall iv scores =
     (case lookup_p0_p1 iv scores of Inl e \<Rightarrow> Inl e
      | Inr (p0, p1) \<Rightarrow> Inr (zip p0 p1))"

subsection \<open>The cross Venn-Abers calibrator\<close>

text \<open>
  The stratified splitter and the estimator are collaborators outside the
  repository; both are parameters. \<open>splitter n X y\<close> yields the pairs
  (train indices, calibration indices) of \<^verbatim>\<open>StratifiedKFold(n).split(X, y)\<close>;
  \<open>train_predict X_train y_train X_cal\<close> is column 1 of the probabilities that a
  fresh estimator, fitted on the training split, predicts for the calibration
  split. Either may raise.
\<close>

type_synonym 'x splitter = "nat \<Rightarrow> 'x list \<Rightarrow> int list \<Rightarrow> error + (nat list \<times> nat list) list"
type_synonym 'x estimator = "'x list \<Rightarrow> int list \<Rightarrow> 'x list \<Rightarrow> error + rat list"

record cvap =
  cv_fitted :: bool
  n_folds :: nat
  ivaps :: "ivap list option"

definition cvap_init :: "nat \<Rightarrow> cvap" where
  "cvap_init n = \<lparr>cv_fitted = False, n_folds = n, ivaps = None\<rparr>"

definition take_rows :: "'a list \<Rightarrow> nat list \<Rightarrow> error + 'a list" where
  "take_rows a idx = collect (np_get a) idx"

definition split_pair ::
  "'x list \<Rightarrow> int list \<Rightarrow> nat list \<times> nat list \<Rightarrow>
     error + (('x list \<times> 'x list) \<times> (int list \<times> int list))" where
  "split_pair X y ti =
     (case take_rows X (fst ti) of Inl e \<Rightarrow> Inl e | Inr X_train \<Rightarrow>
     (case take_rows X (snd ti) of Inl e \<Rightarrow> Inl e | Inr X_cal \<Rightarrow>
     (case take_rows y (fst ti) of Inl e \<Rightarrow> Inl e | Inr y_train \<Rightarrow>
     (case take_rows y (snd ti) of Inl e \<Rightarrow> Inl e | Inr y_cal \<Rightarrow>
        Inr ((X_train, X_cal), (y_train, y_cal))))))"

definition create_n_splits ::
  "'x splitter \<Rightarrow> 'x list \<Rightarrow> int list \<Rightarrow> nat \<Rightarrow>
     error + (('x list \<times> 'x list) list \<times> (int list \<times> int list) list)" where
  "create_n_splits splitter X y n =
     (case splitter n X y of Inl e \<Rightarrow> Inl e | Inr pairs \<Rightarrow>
      (case collect (split_pair X y) pairs of Inl e \<Rightarrow> Inl e
       | Inr sp \<Rightarrow> Inr (map fst sp, map snd sp)))"

text \<open>The test that makes the loop skip a fold.\<close>

definition lacks_labels :: "int list \<times> int list \<Rightarrow> bool" where
  "lacks_labels ys = (length (np_unique (fst ys)) < 2 \<or> length (np_unique (snd ys)) < 2)"

text \<open>One pass of the loop over the folds; \<open>acc\<close> is \<open>self.ivaps\<close>.\<close>

definition fit_fold ::
  "'x estimator \<Rightarrow> ('x list \<times> 'x list) list \<Rightarrow> (int list \<times> int list) list \<Rightarrow>
     nat \<Rightarrow> ivap list \<Rightarrow> error + ivap list" where
  "fit_fold train_predict splits_x splits_y i acc =
     (case np_get splits_x i of Inl e \<Rightarrow> Inl e | Inr xs \<Rightarrow>
     (case np_get splits_y i of Inl e \<Rightarrow> Inl e | Inr ys \<Rightarrow>
        if lacks_labels ys then Inr acc
        else (case train_predict (fst xs) (fst ys) (snd xs) of Inl e \<Rightarrow> Inl e
              | Inr calibration_scores \<Rightarrow>
                  (case fit (snd ys) calibration_scores of Inl e \<Rightarrow> Inl e
                   | Inr calibrator \<Rightarrow> Inr (acc @ [calibrator])))))"

fun fit_folds ::
  "'x estimator \<Rightarrow> ('x list \<times> 'x list) list \<Rightarrow> (int list \<times> int list) list \<Rightarrow>
     nat list \<Rightarrow> ivap list \<Rightarrow> error + ivap list" where
  "fit_folds train_predict splits_x splits_y [] acc = Inr acc"
| "fit_folds train_predict splits_x splits_y (i # is) acc =
     (case fit_fold train_predict splits_x splits_y i acc of Inl e \<Rightarrow> Inl e
      | Inr acc' \<Rightarrow> fit_folds train_predict splits_x splits_y is acc')"

definition cvap_fit ::
  "'x splitter \<Rightarrow> 'x estimator \<Rightarrow> cvap \<Rightarrow> int list \<Rightarrow> 'x list \<Rightarrow> error + cvap" where
  "cvap_fit splitter train_predict cv y X =
     (let unique_labels = np_unique y in
      if length unique_labels \<noteq> 2 then Inl AssertionError
      else (case create_n_splits splitter X y (n_folds cv) of Inl e \<Rightarrow> Inl e
            | Inr (splits_x, splits_y) \<Rightarrow>
                (case fit_folds train_predict splits_x splits_y [0..<n_folds cv] [] of
                   Inl e \<Rightarrow> Inl e
                 | Inr ivs \<Rightarrow> Inr (cv\<lparr>ivaps := Some ivs, cv_fitted := True\<rparr>))))"

text \<open>
  \<^verbatim>\<open>scipy.stats.gmean\<close> is a parameter \<open>gm\<close>, the geometric mean of one vector;
  \<open>gmean_axis0 gm\<close> applies it to every column of a folds-by-scores matrix, as
  \<open>gmean\<close> does along axis 0. The interval array of one fold has shape \<open>(n, 2)\<close>
  for \<open>n > 0\<close> scores and shape \<open>(0,)\<close> for none, so that for an empty score vector
  the stacked array \<open>res\<close> is two-dimensional and \<^verbatim>\<open>res[:, :, 0]\<close> raises
  IndexError.
\<close>

definition gmean_axis0 :: "(real list \<Rightarrow> real) \<Rightarrow> nat \<Rightarrow> real list list \<Rightarrow> real list" where
  "gmean_axis0 gm n m = map (\<lambda>j. gm (map (\<lambda>row. row ! j) m)) [0..<n]"

definition cvap_predict_proba ::
  "(real list \<Rightarrow> real) \<Rightarrow> cvap \<Rightarrow> rat list \<Rightarrow> error + real list" where
  "cvap_predict_proba gm cv scores =
     (if \<not> cv_fitted cv then Inl NotFittedError
      else (case ivaps cv of None \<Rightarrow> Inl AttributeError | Some ivs \<Rightarrow>
           (case collect (\<lambda>calibrator. predict_intervall calibrator scores) ivs of
              Inl e \<Rightarrow> Inl e
            | Inr res \<Rightarrow>
                if length res = 0 then Inr (map (\<lambda>_. 0) scores)
                else if scores = [] then Inl IndexError
                else
                  let p0 = map (map (\<lambda>pr. of_rat (fst pr))) res;
                      p1 = map (map (\<lambda>pr. of_rat (snd pr))) res;
                      n = length scores;
                      p1_gm = gmean_axis0 gm n p1;
                      p0_gm = gmean_axis0 gm n (map (map (\<lambda>v. 1 - v)) p0)
                  in Inr (map (\<lambda>(a, b). a / (b + a)) (zip p1_gm p0_gm)))))"

subsection \<open>The calibrator front end: \<open>_Calibrator.predict_proba\<close>\<close>

text \<open>
  A two-dimensional array is the list of its columns. The estimator's
  \<open>predict_proba\<close> and the fitted binary calibrators are parameters: a binary
  calibrator is its \<open>predict_proba\<close>. A quotient of the row normalisation is
  \<open>None\<close> when numpy yields \<open>nan\<close> or an infinity.
\<close>

record ('x, 'a) calibrator =
  estimator_predict_proba :: "'x list \<Rightarrow> error + rat list list"
  n_classes :: nat
  multiclass :: bool
  calibrators :: "(rat list \<Rightarrow> error + 'a list) list"

definition np_true_divide :: "'a::field \<Rightarrow> 'a \<Rightarrow> 'a option" where
  "np_true_divide a b = (if b = 0 then None else Some (a / b))"

text \<open>
  \<^verbatim>\<open>probabilities[:, idx] = v\<close>: the column must exist, and \<open>v\<close> must have one
  entry per row or a single entry, which numpy broadcasts.
\<close>

definition set_column :: "nat \<Rightarrow> 'a list list \<Rightarrow> nat \<Rightarrow> 'a list \<Rightarrow> error + 'a list list" where
  "set_column n cols idx v =
     (if \<not> idx < length cols then Inl IndexError
      else if length v = n then Inr (cols[idx := v])
      else if length v = 1 then Inr (cols[idx := replicate n (hd v)])
      else Inl ValueError)"

fun fill_columns ::
  "nat \<Rightarrow> (rat list \<Rightarrow> error + 'a list) list \<Rightarrow> (nat \<times> rat list) list \<Rightarrow>
     'a list list \<Rightarrow> error + 'a list list" where
  "fill_columns n cals [] cols = Inr cols"
| "fill_columns n cals ((idx, split) # rest) cols =
     (case np_get cals idx of Inl e \<Rightarrow> Inl e | Inr cal \<Rightarrow>
     (case cal split of Inl e \<Rightarrow> Inl e | Inr v \<Rightarrow>
     (case set_column n cols idx v of Inl e \<Rightarrow> Inl e
      | Inr cols' \<Rightarrow> fill_columns n cals rest cols')))"

definition rows_of :: "nat \<Rightarrow> 'a list list \<Rightarrow> 'a list list" where
  "rows_of n cols = map (\<lambda>r. map (\<lambda>c. c ! r) cols) [0..<n]"

definition normalize_row :: "'a::field list \<Rightarrow> 'a option list" where
  "normalize_row row = map (\<lambda>v. np_true_divide v (sum_list row)) row"

definition calibrator_predict_proba ::
  "('x, 'a::field) calibrator \<Rightarrow> 'x list \<Rightarrow> error + 'a option list list" where
  "calibrator_predict_proba c X =
     (case estimator_predict_proba c X of Inl e \<Rightarrow> Inl e | Inr test_scores \<Rightarrow>
      let n = length X in
      if multiclass c then
        (case fill_columns n (calibrators c) (zip [0..<length test_scores] test_scores)
                (replicate (n_classes c) (replicate n 0)) of
           Inl e \<Rightarrow> Inl e
         | Inr cols \<Rightarrow> Inr (map normalize_row (rows_of n cols)))
      else
        (case np_get test_scores 1 of Inl e \<Rightarrow> Inl e | Inr col1 \<Rightarrow>
        (case np_get (calibrators c) 0 of Inl e \<Rightarrow> Inl e | Inr cal \<Rightarrow>
        (case cal col1 of Inl e \<Rightarrow> Inl e | Inr v \<Rightarrow>
        (case set_column n (replicate 2 (replicate n 0)) 1 v of Inl e \<Rightarrow> Inl e
         | Inr cols \<Rightarrow>
             let p1 = cols ! 1;
                 cols' = cols[0 := map (\<lambda>p. 1 - p) p1]
             in Inr (map (map Some) (rows_of n cols')))))))"

subsection \<open>Specification-side notions\<close>

text \<open>
  The insertion indices of \<open>v\<close> into a sorted array \<open>a\<close> are the positions at which
  inserting \<open>v\<close> keeps the array sorted; the leftmost and the rightmost one are the
  indices the specification of \<open>predict_proba\<close> speaks of.
\<close>

definition insertion_indices :: "rat list \<Rightarrow> rat \<Rightarrow> nat list" where
  "insertion_indices a v =
     filter (\<lambda>i. sorted (take i a @ v # drop i a)) [0..<Suc (length a)]"

definition leftmost_insertion_index :: "rat list \<Rightarrow> rat \<Rightarrow> nat" where
  "leftmost_insertion_index a v = Min (set (insertion_indices a v))"

definition rightmost_insertion_index :: "rat list \<Rightarrow> rat \<Rightarrow> nat" where
  "rightmost_insertion_index a v = Max (set (insertion_indices a v))"

text \<open>The shape invariant of the loops of \<open>compute_f1\<close> and \<open>compute_f0\<close>.\<close>

definition step_inv :: "nat \<Rightarrow> fstate \<Rightarrow> bool" where
  "step_inv k st = (case st of (stack, csd, F) \<Rightarrow>
     2 \<le> length stack \<and> length csd = k + 2 \<and> length F = k + 1)"

text \<open>
  Six samples with labels \<open>[0, 0, 0, 0, 0, 1]\<close> and five folds: the stratified
  split puts one sample of class 0 in every calibration fold and the only sample
  of class 1 in the first. \<open>mix_splitter\<close> is a three-fold split of six samples
  with labels \<open>[0, 1, 0, 1, 0, 0]\<close>: the calibration split of the second fold holds
  class 0 only, the first and the third fold have both classes on both sides.
  \<open>mix_estimator\<close> scores a sample by its value.
\<close>

definition ex_labels :: "int list" where "ex_labels = [0, 0, 0, 0, 0, 1]"

definition ex_X :: "nat list" where "ex_X = [0, 1, 2, 3, 4, 5]"

definition ex_splitter :: "nat splitter" where
  "ex_splitter n X y =
     Inr [([1, 2, 3, 4], [0, 5]), ([0, 2, 3, 4, 5], [1]), ([0, 1, 3, 4, 5], [2]),
          ([0, 1, 2, 4, 5], [3]), ([0, 1, 2, 3, 5], [4])]"

definition ex_estimator :: "nat estimator" where
  "ex_estimator X_train y_train X_cal = Inr (map (\<lambda>x. 1 / 2) X_cal)"

definition ex_splits_y :: "(int list \<times> int list) list" where
  "ex_splits_y = [([0, 0, 0, 0], [0, 1]), ([0, 0, 0, 0, 1], [0]), ([0, 0, 0, 0, 1], [0]),
                  ([0, 0, 0, 0, 1], [0]), ([0, 0, 0, 0, 1], [0])]"

definition ex_splits_x :: "(nat list \<times> nat list) list" where
  "ex_splits_x = [([1, 2, 3, 4], [0, 5]), ([0, 2, 3, 4, 5], [1]), ([0, 1, 3, 4, 5], [2]),
                  ([0, 1, 2, 4, 5], [3]), ([0, 1, 2, 3, 5], [4])]"

definition mix_splitter :: "nat splitter" where
  "mix_splitter n X y =
     Inr [([2, 3, 4, 5], [0, 1]), ([0, 1, 2, 3], [4, 5]), ([0, 1, 4, 5], [2, 3])]"

definition mix_labels :: "int list" where "mix_labels = [0, 1, 0, 1, 0, 0]"

definition mix_estimator :: "nat estimator" where
  "mix_estimator X_train y_train X_cal = Inr (map of_nat X_cal)"

definition mix_splits_x :: "(nat list \<times> nat list) list" where
  "mix_splits_x = [([2, 3, 4, 5], [0, 1]), ([0, 1, 2, 3], [4, 5]), ([0, 1, 4, 5], [2, 3])]"

definition mix_splits_y :: "(int list \<times> int list) list" where
  "mix_splits_y = [([0, 1, 0, 0], [0, 1]), ([0, 1, 0, 1], [0, 0]), ([0, 1, 0, 0], [0, 1])]"

text \<open>The calibrators that \<open>fit [0, 1] [0, 1]\<close> and \<open>fit [0, 1] [2, 3]\<close> return.\<close>

definition mix_ivap_a :: ivap where
  "mix_ivap_a = \<lparr>fitted = True, k_distinct = Some 2, F1 = Some [0, 1 / 2, 1],
                  F0 = Some [0, 0, 1 / 2], unique_elements = Some [0, 1]\<rparr>"

definition mix_ivap_b :: ivap where
  "mix_ivap_b = \<lparr>fitted = True, k_distinct = Some 2, F1 = Some [0, 1 / 2, 1],
                  F0 = Some [0, 0, 1 / 2], unique_elements = Some [2, 3]\<rparr>"

text \<open>
  \<^verbatim>\<open>scipy.stats.gmean\<close> of a vector of non-negative numbers: the exponential of the
  mean of the logarithms, which is 0 when an entry is 0.
\<close>

definition gmean :: "real list \<Rightarrow> real" where
  "gmean a = (if 0 \<in> set a then 0 else exp (sum_list (map ln a) / real (length a)))"

text \<open>The calibrator that \<open>fit [1] [3]\<close> returns.\<close>

definition ex_ivap :: ivap where
  "ex_ivap = \<lparr>fitted = True, k_distinct = Some 1, F1 = Some [0, 1], F0 = Some [0, 1 / 2],
               unique_elements = Some [3]\<rparr>"

definition ex_cvap :: cvap where
  "ex_cvap = \<lparr>cv_fitted = True, n_folds = 1, ivaps = Some [ex_ivap]\<rparr>"

text \<open>
  The cross calibrator that \<open>cvap_fit\<close> returns for the labels \<open>ex_labels\<close> and
  five folds: fitted, with no fold retained.
\<close>

definition ex_cvap_nofolds :: cvap where
  "ex_cvap_nofolds = \<lparr>cv_fitted = True, n_folds = 5, ivaps = Some []\<rparr>"

text \<open>A three-class calibrator whose binary calibrators are in that state.\<close>

definition ex_calibrator :: "(nat, real) calibrator" where
  "ex_calibrator =
     \<lparr>estimator_predict_proba = (\<lambda>X. Inr [map (\<lambda>x. 1 / 3) X, map (\<lambda>x. 1 / 3) X,
                                               map (\<lambda>x. 1 / 3) X]),
      n_classes = 3, multiclass = True,
      calibrators = replicate 3 (cvap_predict_proba gmean ex_cvap_nofolds)\<rparr>"

subsection \<open>Invariants of \<open>compute_f1\<close> and \<open>compute_f0\<close>\<close>


definition sh1 :: "point \<Rightarrow> point" where
  "sh1 p = point_subtraction p (1, 1)"

definition sh0 :: "point \<Rightarrow> point" where
  "sh0 p = point_addition p (1, 0)"















section \<open>Properties\<close>

subsection \<open>numpy helpers and the totality of \<open>fit\<close>\<close>

lemma sorted_np_unique: "sorted (np_unique a)"
  by (simp add: np_unique_def sorted_remdups_adj)

lemma distinct_remdups_adj_sorted:
  "sorted (xs::'a::linorder list) \<Longrightarrow> distinct (remdups_adj xs)"
proof (induction xs rule: remdups_adj.induct)
  case (3 x y xs)
  then show ?case by (auto simp: less_le)
qed simp_all

lemma distinct_np_unique: "distinct (np_unique a)"
  by (simp add: np_unique_def distinct_remdups_adj_sorted)

lemma set_np_unique: "set (np_unique a) = set a"
  by (simp add: np_unique_def)

lemma length_np_unique_index: "length (np_unique_index a) = length (np_unique a)"
  by (simp add: np_unique_index_def)

lemma length_np_unique_counts: "length (np_unique_counts a) = length (np_unique a)"
  by (simp add: np_unique_counts_def)

lemma first_index_less: "u \<in> set a \<Longrightarrow> first_index a u < length a"
  unfolding first_index_def by (induction a) auto

lemma nth_first_index: "u \<in> set a \<Longrightarrow> a ! first_index a u = u"
  unfolding first_index_def by (induction a) auto

lemma collect_map_Inr:
  "(\<And>x. x \<in> set xs \<Longrightarrow> f x = Inr (g x)) \<Longrightarrow> collect f xs = Inr (map g xs)"
  by (induction xs) auto

lemma collect_length: "collect f xs = Inr vs \<Longrightarrow> length vs = length xs"
  by (induction xs arbitrary: vs) (auto split: sum.splits)

lemma collect_unique_index: "collect (np_get a) (np_unique_index a) = Inr (np_unique a)"
proof -
  have "collect (np_get a) (np_unique_index a) = Inr (map (\<lambda>i. a ! i) (np_unique_index a))"
    by (rule collect_map_Inr)
       (auto simp: np_unique_index_def np_get_def set_np_unique first_index_less)
  moreover have "map (\<lambda>i. a ! i) (np_unique_index a) = np_unique a"
    unfolding np_unique_index_def map_map o_def
    by (rule map_idI) (simp add: set_np_unique nth_first_index)
  ultimately show ?thesis by simp
qed


lemma map_of_rev_zip_nth:
  assumes "distinct xs" "length xs = length ys" "j < length xs"
  shows "map_of (rev (zip xs ys)) (xs ! j) = Some (ys ! j)"
proof -
  have "map_of (rev (zip xs ys)) = map_of (zip xs ys)"
  proof (rule map_of_inject_set[THEN iffD2])
    show "distinct (map fst (rev (zip xs ys)))"
      using assms(1,2) by (simp add: rev_map[symmetric] map_fst_zip del: rev_map)
    show "distinct (map fst (zip xs ys))"
      using assms(1,2) by (simp add: map_fst_zip)
  qed simp
  then show ?thesis using assms by (simp add: map_of_zip_nth)
qed

lemma length_cumsum_from [simp]: "length (cumsum_from a xs) = length xs"
  by (induction xs arbitrary: a) auto

lemma length_np_cumsum [simp]: "length (np_cumsum xs) = length xs"
  by (simp add: np_cumsum_def)

lemma label_rate_Inr:
  assumes "distinct un_el" "length cnt = length un_el" "length oucs = length un_el"
    "j < length un_el"
  shows "\<exists>r. label_rate un_el cnt ocs ocl oucs j = Inr r"
  using assms by (simp add: label_rate_def np_get_def map_of_rev_zip_nth Let_def)

lemma collect_Inr_ex:
  "(\<And>x. x \<in> set xs \<Longrightarrow> \<exists>v. f x = Inr v) \<Longrightarrow> \<exists>vs. collect f xs = Inr vs"
proof (induction xs)
  case (Cons x xs)
  then obtain v vs where "f x = Inr v" "collect f xs = Inr vs" by (meson list.set_intros)
  then show ?case by simp
qed simp

lemma compute_csd_Inr:
  assumes "distinct un_el" "length cnt = length un_el" "length oucs = length un_el"
  shows "\<exists>csd. compute_csd (length un_el) un_el cnt ocs ocl oucs = Inr csd \<and>
           length csd = length un_el + 1"
proof -
  obtain y where y: "collect (label_rate un_el cnt ocs ocl oucs) [0..<length un_el] = Inr y"
    using collect_Inr_ex[of "[0..<length un_el]" "label_rate un_el cnt ocs ocl oucs"]
      label_rate_Inr[OF assms] by auto
  from collect_length[OF y] have "length y = length un_el" by simp
  with y assms show ?thesis by (simp add: compute_csd_def)
qed

lemma pop_while_nonempty: "st \<noteq> [] \<Longrightarrow> pop_while turn st \<noteq> []"
  by (induction turn st rule: pop_while.induct) auto

lemma push_pop_length2: "st \<noteq> [] \<Longrightarrow> 2 \<le> length (p # pop_while turn st)"
  using pop_while_nonempty[of st turn] by (cases "pop_while turn st") auto

lemma foldl_push_length2:
  "2 \<le> length st \<Longrightarrow> 2 \<le> length (foldl (\<lambda>stack p. p # pop_while (turn p) stack) st ps)"
proof (induction ps arbitrary: st)
  case (Cons p ps)
  then have "st \<noteq> []" by auto
  from push_pop_length2[OF this] Cons.IH show ?case by simp
qed simp

lemma initialize_f1_corners_Inr:
  "2 \<le> length csd \<Longrightarrow> \<exists>st. initialize_f1_corners csd = Inr st \<and> 2 \<le> length st"
  unfolding initialize_f1_corners_def
  using foldl_push_length2[where turn = "\<lambda>p t n. non_left_angle_turn n t p"]
  by (auto split: list.splits)

lemma initialize_f0_corners_Inr:
  assumes "2 \<le> length csd"
  shows "\<exists>st. initialize_f0_corners csd = Inr st \<and> 2 \<le> length st"
proof -
  from assms obtain a b r where "rev csd = a # b # r"
    by (cases "rev csd"; cases "tl (rev csd)") (auto simp: Suc_le_eq dest: arg_cong[where f = length])
  then show ?thesis
    unfolding initialize_f0_corners_def
    using foldl_push_length2[where turn = "\<lambda>p t n. non_right_angle_turn n t p"]
    by auto
qed

lemma f1_step_Inr:
  assumes "step_inv k st" "2 \<le> i" "i < k + 2"
  shows "\<exists>st'. f1_step i st = Inr st' \<and> step_inv k st'"
proof -
  obtain stack csd F where st: "st = (stack, csd, F)" by (cases st)
  with assms(1) obtain t n rest where stack: "stack = t # n # rest"
    by (cases stack; cases "tl stack") (auto simp: step_inv_def)
  show ?thesis using assms push_pop_length2[of "n # rest"]
    by (auto simp: st stack f1_step_def step_inv_def Let_def)
qed

lemma f0_step_Inr:
  assumes "step_inv k st" "1 \<le> i" "i < k + 1"
  shows "\<exists>st'. f0_step i st = Inr st' \<and> step_inv k st'"
proof -
  obtain stack csd F where st: "st = (stack, csd, F)" by (cases st)
  with assms(1) obtain t n rest where stack: "stack = t # n # rest"
    by (cases stack; cases "tl stack") (auto simp: step_inv_def)
  show ?thesis using assms push_pop_length2[of "n # rest"]
    by (auto simp: st stack f0_step_def step_inv_def Let_def)
qed

lemma run_steps_Inr:
  assumes "\<And>i st. i \<in> set is \<Longrightarrow> step_inv k st \<Longrightarrow> \<exists>st'. step i st = Inr st' \<and> step_inv k st'"
    and "step_inv k st"
  shows "\<exists>st'. run_steps step is st = Inr st' \<and> step_inv k st'"
  using assms
proof (induction "is" arbitrary: st)
  case (Cons i "is")
  from Cons.prems(1)[of i st] Cons.prems(2) obtain st1 where
    s: "step i st = Inr st1" "step_inv k st1" by auto
  from Cons.IH[OF _ s(2)] Cons.prems(1) show ?case using s(1) by auto
qed simp

lemma compute_f1_Inr:
  assumes "2 \<le> length prev_stack" "length csd = k + 2"
  shows "\<exists>f. compute_f1 k prev_stack csd = Inr f \<and> length f = k + 1"
proof -
  have inv: "step_inv k (rev prev_stack, csd, replicate (k + 1) 0)"
    using assms by (simp add: step_inv_def)
  have "\<And>i st. i \<in> set [2..<k + 2] \<Longrightarrow> step_inv k st \<Longrightarrow>
           \<exists>st'. f1_step i st = Inr st' \<and> step_inv k st'"
    unfolding set_upt atLeastLessThan_iff by (rule f1_step_Inr) simp_all
  from run_steps_Inr[of "[2..<k + 2]" k f1_step, OF this inv]
  obtain st' where "run_steps f1_step [2..<k + 2] (rev prev_stack, csd, replicate (k + 1) 0) = Inr st'"
    "step_inv k st'" by blast
  then show ?thesis by (cases st') (auto simp: compute_f1_def step_inv_def)
qed

lemma compute_f0_Inr:
  assumes "2 \<le> length prev_stack" "length csd = k + 2"
  shows "\<exists>f. compute_f0 k prev_stack csd = Inr f \<and> length f = k + 1"
proof -
  have inv: "step_inv k (rev prev_stack, csd, replicate (k + 1) 0)"
    using assms by (simp add: step_inv_def)
  have "\<And>i st. i \<in> set (rev [1..<k + 1]) \<Longrightarrow> step_inv k st \<Longrightarrow>
           \<exists>st'. f0_step i st = Inr st' \<and> step_inv k st'"
    unfolding set_rev set_upt atLeastLessThan_iff by (rule f0_step_Inr) simp_all
  from run_steps_Inr[of "rev [1..<k + 1]" k f0_step, OF this inv]
  obtain st' where "run_steps f0_step (rev [1..<k + 1]) (rev prev_stack, csd, replicate (k + 1) 0) = Inr st'"
    "step_inv k st'" by blast
  then show ?thesis by (cases st') (auto simp: compute_f0_def step_inv_def)
qed

lemma fit_sorted_Inr:
  "\<exists>f0 f1. fit_sorted ocs ocl =
      Inr \<lparr>fitted = True, k_distinct = Some (length (np_unique ocs)), F1 = Some f1,
           F0 = Some f0, unique_elements = Some (np_unique ocs)\<rparr> \<and>
     length f0 = length (np_unique ocs) + 1 \<and> length f1 = length (np_unique ocs) + 1"
proof -
  let ?k = "length (np_unique ocs)"
  obtain csd where csd: "compute_csd ?k (np_unique ocs) (np_unique_counts ocs) ocs ocl (np_unique ocs) = Inr csd"
    "length csd = ?k + 1"
    using compute_csd_Inr[OF distinct_np_unique, of "np_unique_counts ocs" ocs "np_unique ocs" ocs ocl]
    by (auto simp: length_np_unique_counts)
  let ?csd0 = "csd @ [(fst (last csd) + 1, snd (last csd) + 0)]"
  let ?csd1 = "(- 1, - 1) # csd"
  obtain s1 where s1: "initialize_f1_corners ?csd1 = Inr s1" "2 \<le> length s1"
    using initialize_f1_corners_Inr[of ?csd1] csd(2) by auto
  obtain s0 where s0: "initialize_f0_corners ?csd0 = Inr s0" "2 \<le> length s0"
    using initialize_f0_corners_Inr[of ?csd0] csd(2) by auto
  obtain f1 where f1: "compute_f1 ?k s1 ?csd1 = Inr f1" "length f1 = ?k + 1"
    using compute_f1_Inr[OF s1(2), of ?csd1 ?k] csd(2) by auto
  obtain f0 where f0: "compute_f0 ?k s0 ?csd0 = Inr f0" "length f0 = ?k + 1"
    using compute_f0_Inr[OF s0(2), of ?csd0 ?k] csd(2) by auto
  show ?thesis
    using csd s1 s0 f1 f0
    by (simp add: fit_sorted_def Let_def collect_unique_index length_np_unique_index)
qed

subsection \<open>The sort inside \<open>fit\<close>\<close>

lemma map_sort_key: "map f (sort_key f xs) = sort (map f xs)"
  by (rule properties_for_sort[symmetric]) simp_all

lemma map_nth_pair_upt:
  "length y = length scores \<Longrightarrow> map (\<lambda>i. (scores ! i, y ! i)) [0..<length scores] = zip scores y"
  by (rule nth_equalityI) simp_all

lemma fit_binary_sorted:
  assumes "length y = length scores"
  shows "fit_binary y scores =
           fit_sorted (map fst (sort (zip scores y))) (map snd (sort (zip scores y)))"
proof -
  let ?key = "\<lambda>i. (scores ! i, y ! i)"
  let ?idx = "sort_key ?key [0..<length scores]"
  have "map ?key ?idx = sort (zip scores y)"
    by (simp only: map_sort_key map_nth_pair_upt[OF assms])
  then have "map fst (map ?key ?idx) = map fst (sort (zip scores y))"
    "map snd (map ?key ?idx) = map snd (sort (zip scores y))"
    by simp_all
  then have "map (\<lambda>i. scores ! i) ?idx = map fst (sort (zip scores y))"
    "map (\<lambda>i. y ! i) ?idx = map snd (sort (zip scores y))"
    by (simp_all add: o_def)
  with assms show ?thesis by (simp add: fit_binary_def np_lexsort_def)
qed

lemma length_np_unique: "length (np_unique a) = card (set a)"
  using distinct_card[OF distinct_np_unique, of a] by (simp add: set_np_unique)

lemma length_binarize [simp]: "length (binarize y) = length y"
  by (simp add: binarize_def)

lemma binarize_pairs:
  "zip (map fst ps) (binarize (map snd ps)) = map (\<lambda>(s, l). (s, if l = 1 then 1 else 0)) ps"
  by (induction ps) (auto simp: binarize_def)

text \<open>
  Claim C4. Fitting is a function of the multiset of (score, label) pairs: any
  permutation of the calibration pairs gives the same result of \<open>fit\<close>, hence the
  same \<open>F0\<close>, \<open>F1\<close> and unique scores (or the same error).
\<close>

theorem fit_permutation_invariant:
  assumes "mset ps' = mset ps"
  shows "fit (map snd ps') (map fst ps') = fit (map snd ps) (map fst ps)"
proof -
  have "set ps' = set ps" using assms by (rule mset_eq_setD)
  then have s: "set (map snd ps') = set (map snd ps)" by simp
  let ?b = "\<lambda>(s::rat, l::int). (s, if l = 1 then 1 else 0::int)"
  have m: "mset (map ?b ps') = mset (map ?b ps)" using assms by simp
  have "sort (map ?b ps') = sort (map ?b ps)"
    by (rule properties_for_sort) (simp_all add: m del: mset_map)
  then have b: "fit_binary (binarize (map snd ps')) (map fst ps') =
             fit_binary (binarize (map snd ps)) (map fst ps)"
    by (simp only: fit_binary_sorted length_binarize length_map binarize_pairs)
  have "length (np_unique (map snd ps')) = length (np_unique (map snd ps))"
    by (simp only: length_np_unique s)
  with b show ?thesis by (simp only: fit_def Let_def)
qed

subsection \<open>\<open>searchsorted\<close> and insertion indices\<close>


lemma insertion_index_iff:
  assumes "sorted a"
  shows "i \<in> set (insertion_indices a v) \<longleftrightarrow>
           i \<le> length a \<and> (\<forall>j<i. a ! j \<le> v) \<and> (\<forall>j. i \<le> j \<and> j < length a \<longrightarrow> v \<le> a ! j)"
proof -
  have "sorted (take i a)" "sorted (drop i a)"
    using assms by (simp_all add: sorted_wrt_take sorted_wrt_drop)
  moreover have "(\<forall>x\<in>set (take i a). x \<le> v) \<longleftrightarrow> (\<forall>j<i. a ! j \<le> v)" if il: "i \<le> length a"
  proof
    assume h: "\<forall>x\<in>set (take i a). x \<le> v"
    show "\<forall>j<i. a ! j \<le> v"
    proof (intro allI impI)
      fix j assume "j < i"
      then have "take i a ! j = a ! j" "j < length (take i a)" using il by auto
      then show "a ! j \<le> v" using h by (metis nth_mem)
    qed
  next
    assume "\<forall>j<i. a ! j \<le> v"
    then show "\<forall>x\<in>set (take i a). x \<le> v"
      by (auto simp: in_set_conv_nth)
  qed
  moreover have "(\<forall>x\<in>set (drop i a). v \<le> x) \<longleftrightarrow> (\<forall>j. i \<le> j \<and> j < length a \<longrightarrow> v \<le> a ! j)"
  proof
    assume h: "\<forall>x\<in>set (drop i a). v \<le> x"
    show "\<forall>j. i \<le> j \<and> j < length a \<longrightarrow> v \<le> a ! j"
    proof (intro allI impI)
      fix j assume j: "i \<le> j \<and> j < length a"
      then have "a ! j = drop i a ! (j - i)" "j - i < length (drop i a)" by auto
      then show "v \<le> a ! j" using h by (metis nth_mem)
    qed
  next
    assume "\<forall>j. i \<le> j \<and> j < length a \<longrightarrow> v \<le> a ! j"
    then show "\<forall>x\<in>set (drop i a). v \<le> x"
      by (auto simp: in_set_conv_nth)
  qed
  moreover have "\<forall>x\<in>set (take i a). \<forall>y\<in>set (drop i a). x \<le> y"
    using assms by (metis append_take_drop_id sorted_append)
  ultimately have "i \<le> length a \<Longrightarrow> sorted (take i a @ v # drop i a) \<longleftrightarrow>
      (\<forall>j<i. a ! j \<le> v) \<and> (\<forall>j. i \<le> j \<and> j < length a \<longrightarrow> v \<le> a ! j)"
    by (simp add: sorted_append) blast
  moreover have "i \<in> set (insertion_indices a v) \<longleftrightarrow>
      i \<le> length a \<and> sorted (take i a @ v # drop i a)"
    unfolding insertion_indices_def by (auto simp del: upt_Suc)
  ultimately show ?thesis by blast
qed

lemma searchsorted_left_props:
  "searchsorted_left a v \<le> length a"
  "j < searchsorted_left a v \<Longrightarrow> a ! j < v"
  "sorted a \<Longrightarrow> searchsorted_left a v \<le> j \<Longrightarrow> j < length a \<Longrightarrow> v \<le> a ! j"
proof -
  let ?L = "searchsorted_left a v"
  show "?L \<le> length a" by (simp add: searchsorted_left_def length_takeWhile_le)
  show "a ! j < v" if "j < ?L"
    using that unfolding searchsorted_left_def
    by (metis (mono_tags, lifting) nth_mem set_takeWhileD takeWhile_nth)
  show "v \<le> a ! j" if s: "sorted a" and "?L \<le> j" "j < length a"
  proof -
    have "?L < length a" using that by simp
    then have "\<not> a ! ?L < v"
      unfolding searchsorted_left_def by (rule nth_length_takeWhile)
    moreover have "a ! ?L \<le> a ! j" using s that by (simp add: sorted_nth_mono)
    ultimately show ?thesis by simp
  qed
qed

lemma searchsorted_right_props:
  "searchsorted_right a v \<le> length a"
  "j < searchsorted_right a v \<Longrightarrow> a ! j \<le> v"
  "sorted a \<Longrightarrow> searchsorted_right a v \<le> j \<Longrightarrow> j < length a \<Longrightarrow> v < a ! j"
proof -
  let ?L = "searchsorted_right a v"
  show "?L \<le> length a" by (simp add: searchsorted_right_def length_takeWhile_le)
  show "a ! j \<le> v" if "j < ?L"
    using that unfolding searchsorted_right_def
    by (metis (mono_tags, lifting) nth_mem set_takeWhileD takeWhile_nth)
  show "v < a ! j" if s: "sorted a" and "?L \<le> j" "j < length a"
  proof -
    have "?L < length a" using that by simp
    then have "\<not> a ! ?L \<le> v"
      unfolding searchsorted_right_def by (rule nth_length_takeWhile)
    moreover have "a ! ?L \<le> a ! j" using s that by (simp add: sorted_nth_mono)
    ultimately show ?thesis by simp
  qed
qed

lemma searchsorted_left_leftmost:
  assumes "sorted a"
  shows "searchsorted_left a v = leftmost_insertion_index a v"
proof -
  let ?L = "searchsorted_left a v"
  have mem: "?L \<in> set (insertion_indices a v)"
    unfolding insertion_index_iff[OF assms]
    using searchsorted_left_props[where a = a and v = v] assms by (auto intro: less_imp_le)
  have "?L \<le> i" if "i \<in> set (insertion_indices a v)" for i
  proof (rule ccontr)
    assume "\<not> ?L \<le> i"
    then have "i < ?L" by simp
    then have "a ! i < v" by (rule searchsorted_left_props(2))
    moreover have "v \<le> a ! i"
      using that \<open>i < ?L\<close> searchsorted_left_props(1)[where a = a and v = v]
      unfolding insertion_index_iff[OF assms] by auto
    ultimately show False by simp
  qed
  with mem show ?thesis
    unfolding leftmost_insertion_index_def by (intro Min_eqI[symmetric]) auto
qed

lemma searchsorted_right_rightmost:
  assumes "sorted a"
  shows "searchsorted_right a v = rightmost_insertion_index a v"
proof -
  let ?L = "searchsorted_right a v"
  have mem: "?L \<in> set (insertion_indices a v)"
    unfolding insertion_index_iff[OF assms]
    using searchsorted_right_props[where a = a and v = v] assms by (auto intro: less_imp_le)
  have "i \<le> ?L" if "i \<in> set (insertion_indices a v)" for i
  proof (rule ccontr)
    assume "\<not> i \<le> ?L"
    then have lt: "?L < i" by simp
    have il: "i \<le> length a" using that unfolding insertion_index_iff[OF assms] by simp
    then have "v < a ! ?L" using lt assms by (intro searchsorted_right_props(3)) auto
    moreover have "a ! ?L \<le> v"
      using that lt unfolding insertion_index_iff[OF assms] by auto
    ultimately show False by simp
  qed
  with mem show ?thesis
    unfolding rightmost_insertion_index_def by (intro Max_eqI[symmetric]) auto
qed

subsection \<open>The shape of a fitted calibrator\<close>

lemma np_unique_cong_mset: "mset a = mset b \<Longrightarrow> np_unique a = np_unique b"
  unfolding np_unique_def by (metis properties_for_sort sorted_sort mset_sort)

lemma np_unique_sorted_scores:
  assumes "length y = length scores"
  shows "np_unique (map fst (sort (zip scores y))) = np_unique scores"
proof (rule np_unique_cong_mset)
  have "mset (map fst (sort (zip scores y))) = mset (map fst (zip scores y))"
    by (simp only: mset_map mset_sort)
  then show "mset (map fst (sort (zip scores y))) = mset scores"
    using assms by (simp add: map_fst_zip)
qed

lemma fit_binary_Inr:
  assumes "length y = length scores"
  shows "\<exists>f0 f1. fit_binary y scores =
      Inr \<lparr>fitted = True, k_distinct = Some (length (np_unique scores)), F1 = Some f1,
           F0 = Some f0, unique_elements = Some (np_unique scores)\<rparr> \<and>
     length f0 = length (np_unique scores) + 1 \<and> length f1 = length (np_unique scores) + 1"
  using fit_sorted_Inr[of "map fst (sort (zip scores y))" "map snd (sort (zip scores y))"]
  by (simp add: fit_binary_sorted[OF assms] np_unique_sorted_scores[OF assms])

lemma fit_binary_Inl: "length y \<noteq> length scores \<Longrightarrow> fit_binary y scores = Inl ValueError"
  by (simp add: fit_binary_def np_lexsort_def)

lemma fit_Inr_form:
  assumes "fit y scores = Inr iv"
  shows "\<exists>f0 f1. iv = \<lparr>fitted = True, k_distinct = Some (length (np_unique scores)), F1 = Some f1,
           F0 = Some f0, unique_elements = Some (np_unique scores)\<rparr> \<and>
     length f0 = length (np_unique scores) + 1 \<and> length f1 = length (np_unique scores) + 1"
proof -
  from assms have b: "fit_binary (binarize y) scores = Inr iv"
    by (simp add: fit_def Let_def split: if_splits)
  have "length (binarize y) = length scores"
    using b fit_binary_Inl[of "binarize y" scores] by (cases "length (binarize y) = length scores") auto
  from fit_binary_Inr[OF this] b show ?thesis by auto
qed

lemma lookup_p0_p1_Inr:
  assumes "unique_elements iv = Some ue" "F0 iv = Some f0" "F1 iv = Some f1"
    "length f0 = length ue + 1" "length f1 = length ue + 1" "ue \<noteq> []"
  shows "lookup_p0_p1 iv test =
     Inr (map (\<lambda>s. f0 ! searchsorted_left ue s) test,
          map (\<lambda>s. f1 ! (searchsorted_right (butlast ue) s + 1)) test)"
proof -
  have l: "searchsorted_left ue s < length f0" for s
    using searchsorted_left_props(1)[of ue s] assms(4) by simp
  have u: "searchsorted_right (butlast ue) s + 1 < length f1" for s
    using searchsorted_right_props(1)[of "butlast ue" s] assms(5,6)
    by (cases ue rule: rev_cases) auto
  have "collect (np_get f0) (map (searchsorted_left ue) test) =
          Inr (map (\<lambda>i. f0 ! i) (map (searchsorted_left ue) test))"
    by (rule collect_map_Inr) (auto simp: np_get_def l)
  moreover have "collect (np_get f1) (map (\<lambda>s. searchsorted_right (butlast ue) s + 1) test) =
          Inr (map (\<lambda>i. f1 ! i) (map (\<lambda>s. searchsorted_right (butlast ue) s + 1) test))"
    by (rule collect_map_Inr) (auto simp: np_get_def u simp del: One_nat_def)
  ultimately show ?thesis using assms(1-3)
    by (simp add: lookup_p0_p1_def Let_def o_def)
qed

lemma map_zip_map2:
  "map (\<lambda>(a, b). g a b) (zip (map f xs) (map h xs)) = map (\<lambda>x. g (f x) (h x)) xs"
  by (induction xs) auto


text \<open>
  Claim C2. For a calibrator fitted on a non-empty calibration set and every test
  score \<open>s\<close>, \<open>predict_proba\<close> returns \<open>F1[upper] / (1 - F0[lower] + F1[upper])\<close>,
  where \<open>lower\<close> is the leftmost insertion index of \<open>s\<close> into the unique scores
  and \<open>upper\<close> is one plus the rightmost insertion index of \<open>s\<close> into the unique
  scores without their last element; both indices are in range.
\<close>

theorem predict_proba_formula:
  assumes "fit y scores = Inr iv" and "scores \<noteq> []"
  shows "\<exists>ue f0 f1. unique_elements iv = Some ue \<and> F0 iv = Some f0 \<and> F1 iv = Some f1 \<and>
     predict_proba iv test =
       Inr (map (\<lambda>s. f1 ! (rightmost_insertion_index (butlast ue) s + 1) /
                      (1 - f0 ! leftmost_insertion_index ue s
                         + f1 ! (rightmost_insertion_index (butlast ue) s + 1))) test) \<and>
     (\<forall>s. leftmost_insertion_index ue s < length f0 \<and>
          rightmost_insertion_index (butlast ue) s + 1 < length f1)"
proof -
  let ?ue = "np_unique scores"
  from fit_Inr_form[OF assms(1)] obtain f0 f1 where
    iv: "iv = \<lparr>fitted = True, k_distinct = Some (length ?ue), F1 = Some f1,
           F0 = Some f0, unique_elements = Some ?ue\<rparr>"
    and len: "length f0 = length ?ue + 1" "length f1 = length ?ue + 1" by blast
  have ne: "?ue \<noteq> []" using assms(2) set_np_unique[of scores] by (metis set_empty)
  have s: "sorted ?ue" "sorted (butlast ?ue)"
    using sorted_np_unique[of scores] by (simp_all add: sorted_butlast)
  note L = searchsorted_left_leftmost[OF s(1)] and R = searchsorted_right_rightmost[OF s(2)]
  have lk: "lookup_p0_p1 iv test =
     Inr (map (\<lambda>s. f0 ! leftmost_insertion_index ?ue s) test,
          map (\<lambda>s. f1 ! (rightmost_insertion_index (butlast ?ue) s + 1)) test)"
    using lookup_p0_p1_Inr[of iv ?ue f0 f1 test] len ne by (simp add: iv L R)
  have b1: "leftmost_insertion_index ?ue s < length f0" for s
    using searchsorted_left_props(1)[of ?ue s] len by (simp add: L)
  have b2: "rightmost_insertion_index (butlast ?ue) s + 1 < length f1" for s
  proof -
    have "rightmost_insertion_index (butlast ?ue) s \<le> length ?ue - 1"
      using searchsorted_right_props(1)[of "butlast ?ue" s] by (simp add: R)
    moreover have "0 < length ?ue" using ne by simp
    ultimately show ?thesis using len by linarith
  qed
  have "predict_proba iv test =
       Inr (map (\<lambda>s. f1 ! (rightmost_insertion_index (butlast ?ue) s + 1) /
                      (1 - f0 ! leftmost_insertion_index ?ue s
                         + f1 ! (rightmost_insertion_index (butlast ?ue) s + 1))) test)"
    using lk by (simp add: predict_proba_def map_zip_map2 iv del: One_nat_def)
  with b1 b2 show ?thesis by (auto simp: iv)
qed

subsection \<open>Claims on validation and on use before \<open>fit\<close>\<close>

lemma fit_total:
  assumes "length y = length scores" "card (set y) \<le> 2"
  shows "\<exists>f0 f1. fit y scores =
      Inr \<lparr>fitted = True, k_distinct = Some (length (np_unique scores)), F1 = Some f1,
           F0 = Some f0, unique_elements = Some (np_unique scores)\<rparr> \<and>
     length f0 = length (np_unique scores) + 1 \<and> length f1 = length (np_unique scores) + 1"
  using fit_binary_Inr[of "binarize y" scores] assms
  by (simp add: fit_def length_np_unique)

theorem predict_proba_formula_witness:
  "\<exists>iv f0 f1. fit [1] [3] = Inr iv \<and> [3 :: rat] \<noteq> [] \<and>
     unique_elements iv = Some [3] \<and> F0 iv = Some f0 \<and> F1 iv = Some f1 \<and>
     predict_proba iv [2] = Inr [f1 ! 1 / (1 - f0 ! 0 + f1 ! 1)]"
proof -
  obtain iv where iv: "fit [1] [3] = Inr iv"
    using fit_total[of "[1]" "[3]"] by auto
  have u: "np_unique [3 :: rat] = [3]" by (simp add: np_unique_def)
  have i: "insertion_indices [3] 2 = [0]" "insertion_indices [] 2 = [0]"
    by code_simp+
  have ne: "[3 :: rat] \<noteq> []" by simp
  from predict_proba_formula[OF iv ne, of "[2]"] fit_Inr_form[OF iv]
  obtain f0 f1 where "unique_elements iv = Some [3]" "F0 iv = Some f0" "F1 iv = Some f1"
    "predict_proba iv [2] = Inr [f1 ! 1 / (1 - f0 ! 0 + f1 ! 1)]"
    by (auto simp: u i leftmost_insertion_index_def rightmost_insertion_index_def)
  with iv ne show ?thesis by blast
qed

theorem fit_permutation_invariant_witness:
  "mset [(2, 1), (1 :: rat, 0 :: int)] = mset [(1, 0), (2, 1)] \<and>
   fit [1, 0] [2, 1] = fit [0, 1] [1, 2]"
  using fit_permutation_invariant[of "[(2, 1), (1, 0)]" "[(1, 0), (2, 1)]"] by simp

text \<open>
  Claim C7. Before \<open>fit\<close>, \<open>predict_proba\<close> fails with NotFittedError, but
  \<open>predict_intervall\<close> has no such guard: on an unfitted calibrator it fails
  with AttributeError, raised by the read of the attribute \<open>unique_elements\<close>
  that only \<open>fit\<close> creates.
\<close>

theorem predict_intervall_before_fit:
  "predict_proba ivap_init scores = Inl NotFittedError \<and>
   predict_intervall ivap_init scores = Inl AttributeError"
  by (simp add: predict_proba_def predict_intervall_def lookup_p0_p1_def ivap_init_def)

text \<open>
  Claim C8. A label vector with more than two distinct values makes \<open>fit\<close> fail
  on its assertion. With at most two distinct values the assertion passes, and
  \<open>fit\<close> goes on with the labels mapped: the positive label 1 to 1, every other
  label to 0.
\<close>

theorem fit_label_validation:
  "(2 < card (set y) \<longrightarrow> fit y scores = Inl AssertionError) \<and>
   (card (set y) \<le> 2 \<longrightarrow>
      fit y scores \<noteq> Inl AssertionError \<and>
      fit y scores = fit_binary (map (\<lambda>l. if l = 1 then 1 else 0) y) scores)"
proof -
  have "fit_binary (binarize y) scores \<noteq> Inl AssertionError"
    using fit_binary_Inr[of "binarize y" scores] fit_binary_Inl[of "binarize y" scores]
    by (cases "length (binarize y) = length scores") auto
  then show ?thesis
    by (auto simp: fit_def length_np_unique binarize_def)
qed

theorem fit_label_validation_witness:
  "2 < card (set [0, 1, 2 :: int]) \<and> fit [0, 1, 2] [1, 2, 3] = Inl AssertionError \<and>
   card (set [1, 5, 5 :: int]) \<le> 2 \<and> fit [1, 5, 5] [1, 2, 3] \<noteq> Inl AssertionError \<and>
   fit [1, 5, 5] [1, 2, 3] = fit_binary [1, 0, 0] [1, 2, 3]"
  using fit_label_validation[of "[0, 1, 2]" "[1, 2, 3]"]
    fit_label_validation[of "[1, 5, 5]" "[1, 2, 3]"]
  by auto

text \<open>
  Claim C10. The cross calibrator's \<open>fit\<close> fails on its assertion for every label
  vector that does not have exactly two distinct values, whatever the splitter
  and the estimator are (neither is consulted); the inductive calibrator's
  \<open>fit\<close> accepts a calibration set with a single distinct label.
\<close>

theorem cvap_fit_requires_two_labels:
  "(card (set y) \<noteq> 2 \<longrightarrow> cvap_fit splitter train_predict cv y X = Inl AssertionError) \<and>
   (card (set y) = 1 \<and> length scores = length y \<longrightarrow>
      (\<exists>iv. fit y scores = Inr iv \<and> fitted iv))"
proof -
  have "\<exists>iv. fit y scores = Inr iv \<and> fitted iv" if "card (set y) = 1" "length scores = length y"
    using fit_total[of y scores] that by auto
  then show ?thesis by (auto simp: cvap_fit_def length_np_unique)
qed

theorem cvap_fit_requires_two_labels_witness:
  "card (set [1, 1 :: int]) \<noteq> 2 \<and>
   cvap_fit (\<lambda>n X y. Inl ValueError) (\<lambda>Xt yt Xc. Inl ValueError) (cvap_init 5) [1, 1] [(), ()]
     = Inl AssertionError \<and>
   card (set [1, 1 :: int]) = 1 \<and> length [1 / 2, 3 / 4 :: rat] = length [1, 1 :: int] \<and>
   (\<exists>iv. fit [1, 1] [1 / 2, 3 / 4] = Inr iv \<and> fitted iv)"
  using cvap_fit_requires_two_labels[of "[1, 1]" "\<lambda>n X y. Inl ValueError"
      "\<lambda>Xt yt Xc. Inl ValueError" "cvap_init 5" "[(), ()]" "[1 / 2, 3 / 4]"]
  by simp

subsection \<open>Example inputs\<close>

subsection \<open>Folds of the cross calibrator\<close>

lemma np_unique_simps:
  "np_unique [0, 0, 0, 0::int] = [0]" "np_unique [0, 1::int] = [0, 1]"
  "np_unique [0, 0, 0, 0, 1::int] = [0, 1]" "np_unique [0::int] = [0]"
  "np_unique [0, 0, 0, 0, 0, 1::int] = [0, 1]"
  by (simp_all add: np_unique_def)

lemma ex_create_n_splits:
  "create_n_splits ex_splitter ex_X ex_labels 5 = Inr (ex_splits_x, ex_splits_y)"
  by (simp add: create_n_splits_def ex_splitter_def split_pair_def take_rows_def np_get_def
      ex_X_def ex_labels_def ex_splits_y_def ex_splits_x_def)

lemma ex_lacks_labels: "map lacks_labels ex_splits_y = [True, True, True, True, True]"
  by (simp add: ex_splits_y_def lacks_labels_def np_unique_simps)

lemma cvap_fit_ex_labels:
  "cvap_fit ex_splitter ex_estimator (cvap_init 5) ex_labels ex_X = Inr ex_cvap_nofolds"
proof -
  have u: "[0..<5] = [0, 1, 2, 3, 4]" by (simp add: upt_rec)
  show ?thesis
    using ex_lacks_labels
    by (simp add: cvap_fit_def cvap_init_def ex_create_n_splits u fit_fold_def np_get_def
          ex_cvap_nofolds_def)
       (simp add: ex_labels_def np_unique_simps ex_splits_y_def ex_splits_x_def)
qed

text \<open>
  Claim C6, as stated, fails: on six samples with one positive and five folds, no
  fold is usable, yet \<open>fit\<close> of the cross calibrator succeeds, with no calibrator
  retained.
\<close>

theorem cvap_fit_zero_folds_counterexample:
  "create_n_splits ex_splitter ex_X ex_labels 5 = Inr (ex_splits_x, ex_splits_y) \<and>
   map lacks_labels ex_splits_y = [True, True, True, True, True] \<and>
   cvap_fit ex_splitter ex_estimator (cvap_init 5) ex_labels ex_X =
     Inr \<lparr>cv_fitted = True, n_folds = 5, ivaps = Some []\<rparr>"
  using ex_create_n_splits ex_lacks_labels cvap_fit_ex_labels
  by (simp add: ex_cvap_nofolds_def)

lemma fit_folds_length:
  "fit_folds tp sx sy is acc = Inr ivs \<Longrightarrow>
     length ivs = length acc + length (filter (\<lambda>i. \<not> lacks_labels (sy ! i)) is)"
proof (induction "is" arbitrary: acc)
  case (Cons i "is")
  from Cons.prems obtain acc' where
    f: "fit_fold tp sx sy i acc = Inr acc'" and r: "fit_folds tp sx sy is acc' = Inr ivs"
    by (auto split: sum.splits)
  from f have "length acc' = length acc + (if lacks_labels (sy ! i) then 0 else 1)"
    by (auto simp: fit_fold_def np_get_def split: sum.splits if_splits)
  with Cons.IH[OF r] show ?case by simp
qed simp

lemma fit_folds_all_lack:
  "(\<And>i. i \<in> set is \<Longrightarrow> i < length sx \<and> i < length sy \<and> lacks_labels (sy ! i)) \<Longrightarrow>
     fit_folds tp sx sy is acc = Inr acc"
  by (induction "is") (auto simp: fit_fold_def np_get_def)

text \<open>
  The loop over the folds appends, to the calibrators it starts with, the
  calibrators fitted on the usable folds, in the order of the folds, and fails
  with the first error that the estimator or \<open>fit\<close> raises on a usable fold. A
  fold that lacks a label contributes nothing and stops nothing, wherever it
  stands among the folds.
\<close>

lemma fit_folds_collect:
  "\<forall>i\<in>set is. i < length sx \<and> i < length sy \<Longrightarrow>
   fit_folds tp sx sy is acc =
     (case collect (\<lambda>i. case tp (fst (sx ! i)) (fst (sy ! i)) (snd (sx ! i)) of
                          Inl e \<Rightarrow> Inl e
                        | Inr calibration_scores \<Rightarrow> fit (snd (sy ! i)) calibration_scores)
             (filter (\<lambda>i. \<not> lacks_labels (sy ! i)) is) of
        Inl e \<Rightarrow> Inl e
      | Inr ivs \<Rightarrow> Inr (acc @ ivs))"
proof (induction "is" arbitrary: acc)
  case Nil
  then show ?case by simp
next
  case (Cons i "is")
  then have IH: "\<And>acc. fit_folds tp sx sy is acc =
     (case collect (\<lambda>i. case tp (fst (sx ! i)) (fst (sy ! i)) (snd (sx ! i)) of
                          Inl e \<Rightarrow> Inl e
                        | Inr calibration_scores \<Rightarrow> fit (snd (sy ! i)) calibration_scores)
             (filter (\<lambda>i. \<not> lacks_labels (sy ! i)) is) of
        Inl e \<Rightarrow> Inl e
      | Inr ivs \<Rightarrow> Inr (acc @ ivs))"
    by simp
  from Cons.prems have i: "i < length sx" "i < length sy" by simp_all
  show ?case
    by (simp add: fit_fold_def np_get_def i IH split: sum.splits)
qed

lemma fit_folds_skip:
  "\<forall>i\<in>set is. i < length sx \<and> i < length sy \<Longrightarrow>
   fit_folds tp sx sy is acc =
     fit_folds tp sx sy (filter (\<lambda>i. \<not> lacks_labels (sy ! i)) is) acc"
  using fit_folds_collect[of "is" sx sy tp acc]
    fit_folds_collect[of "filter (\<lambda>i. \<not> lacks_labels (sy ! i)) is" sx sy tp acc]
  by simp

lemma create_n_splits_length:
  "create_n_splits splitter X y n = Inr (sx, sy) \<Longrightarrow> length sx = length sy"
  by (auto simp: create_n_splits_def split: sum.splits)

text \<open>
  Claim C6, amended. Let the stratified split yield one pair of splits for each of
  the \<open>n_folds\<close> folds, on labels with two distinct values. A fold of which the
  training or the calibration split has fewer than two distinct labels is skipped
  entirely: \<open>fit\<close> of the cross calibrator is \<open>fit\<close> of the inductive calibrator on
  (calibration labels, calibration scores) of every other fold, in the order of
  the folds, whatever the position of the skipped folds. It fails exactly when
  the estimator or the inductive \<open>fit\<close> fails on one of those other folds, with
  the first such error; otherwise it completes, marked fitted, and retains exactly
  the calibrators so fitted. A skipped fold stores nothing and raises nothing; in
  particular, when no fold is usable, \<open>fit\<close> does not fail: it completes with an
  empty list of calibrators.
\<close>

theorem cvap_fit_skips_folds:
  assumes "card (set y) = 2"
    and "create_n_splits splitter X y (n_folds cv) = Inr (sx, sy)"
    and "length sy = n_folds cv"
  shows "cvap_fit splitter train_predict cv y X =
           (case collect
                   (\<lambda>i. case train_predict (fst (sx ! i)) (fst (sy ! i)) (snd (sx ! i)) of
                          Inl e \<Rightarrow> Inl e
                        | Inr calibration_scores \<Rightarrow> fit (snd (sy ! i)) calibration_scores)
                   (filter (\<lambda>i. \<not> lacks_labels (sy ! i)) [0..<n_folds cv]) of
              Inl e \<Rightarrow> Inl e
            | Inr ivs \<Rightarrow> Inr (cv\<lparr>ivaps := Some ivs, cv_fitted := True\<rparr>)) \<and>
         ((\<forall>i<n_folds cv. lacks_labels (sy ! i)) \<longrightarrow>
            cvap_fit splitter train_predict cv y X =
              Inr (cv\<lparr>ivaps := Some [], cv_fitted := True\<rparr>))"
proof -
  let ?one = "\<lambda>i. case train_predict (fst (sx ! i)) (fst (sy ! i)) (snd (sx ! i)) of
                    Inl e \<Rightarrow> Inl e
                  | Inr calibration_scores \<Rightarrow> fit (snd (sy ! i)) calibration_scores"
  let ?usable = "filter (\<lambda>i. \<not> lacks_labels (sy ! i)) [0..<n_folds cv]"
  from create_n_splits_length[OF assms(2)] assms(3)
  have "\<forall>i\<in>set [0..<n_folds cv]. i < length sx \<and> i < length sy" by simp
  from fit_folds_collect[OF this, of train_predict "[]"]
  have f: "fit_folds train_predict sx sy [0..<n_folds cv] [] =
      (case collect ?one ?usable of Inl e \<Rightarrow> Inl e | Inr ivs \<Rightarrow> Inr ivs)"
    by (simp split: sum.splits)
  have eq: "cvap_fit splitter train_predict cv y X =
      (case collect ?one ?usable of Inl e \<Rightarrow> Inl e
       | Inr ivs \<Rightarrow> Inr (cv\<lparr>ivaps := Some ivs, cv_fitted := True\<rparr>))"
    unfolding cvap_fit_def Let_def length_np_unique assms(1) assms(2) prod.case sum.case f
    by (simp split: sum.splits)
  have "cvap_fit splitter train_predict cv y X =
      Inr (cv\<lparr>ivaps := Some [], cv_fitted := True\<rparr>)"
    if "\<forall>i<n_folds cv. lacks_labels (sy ! i)"
  proof -
    from that have "?usable = []" by (simp add: filter_empty_conv)
    with eq show ?thesis by simp
  qed
  with eq show ?thesis by blast
qed

lemma fit_mix_ivaps:
  "fit [0, 1] [0, 1] = Inr mix_ivap_a" "fit [0, 1] [2, 3] = Inr mix_ivap_b"
  unfolding mix_ivap_a_def mix_ivap_b_def by code_simp+

theorem cvap_fit_skips_folds_witness:
  "card (set mix_labels) = 2 \<and>
   create_n_splits mix_splitter ex_X mix_labels (n_folds (cvap_init 3)) =
     Inr (mix_splits_x, mix_splits_y) \<and>
   length mix_splits_y = n_folds (cvap_init 3) \<and>
   map lacks_labels mix_splits_y = [False, True, False] \<and>
   fit [0, 1] [0, 1] = Inr mix_ivap_a \<and> fit [0, 1] [2, 3] = Inr mix_ivap_b \<and>
   cvap_fit mix_splitter mix_estimator (cvap_init 3) mix_labels ex_X =
     Inr \<lparr>cv_fitted = True, n_folds = 3, ivaps = Some [mix_ivap_a, mix_ivap_b]\<rparr> \<and>
   card (set ex_labels) = 2 \<and>
   create_n_splits ex_splitter ex_X ex_labels (n_folds (cvap_init 5)) =
     Inr (ex_splits_x, ex_splits_y) \<and>
   length ex_splits_y = n_folds (cvap_init 5) \<and>
   map lacks_labels ex_splits_y = [True, True, True, True, True] \<and>
   cvap_fit ex_splitter ex_estimator (cvap_init 5) ex_labels ex_X =
     Inr \<lparr>cv_fitted = True, n_folds = 5, ivaps = Some []\<rparr>"
proof -
  have nu: "np_unique [0, 1, 0, 1::int] = [0, 1]" "np_unique [0, 0::int] = [0]"
    "np_unique [0, 1, 0, 0::int] = [0, 1]" "np_unique [0, 1::int] = [0, 1]"
    by code_simp+
  have "np_unique mix_labels = [0, 1]" unfolding mix_labels_def by code_simp
  then have m1: "card (set mix_labels) = 2" by (simp add: length_np_unique[symmetric])
  have m2: "create_n_splits mix_splitter ex_X mix_labels (n_folds (cvap_init 3)) =
      Inr (mix_splits_x, mix_splits_y)"
    by (simp add: create_n_splits_def mix_splitter_def split_pair_def take_rows_def np_get_def
        ex_X_def mix_labels_def mix_splits_x_def mix_splits_y_def)
  have m3: "length mix_splits_y = n_folds (cvap_init 3)"
    by (simp add: mix_splits_y_def cvap_init_def)
  have m4: "map lacks_labels mix_splits_y = [False, True, False]"
    by (simp add: mix_splits_y_def lacks_labels_def nu)
  have u3: "[0..<3] = [0, 1, 2]" by (simp add: upt_rec)
  have l3: "\<not> lacks_labels (mix_splits_y ! 0)" "lacks_labels (mix_splits_y ! 1)"
    "\<not> lacks_labels (mix_splits_y ! 2)"
    using m4 by (simp_all add: mix_splits_y_def)
  have n3: "n_folds (cvap_init 3) = 3" by (simp add: cvap_init_def)
  have us: "filter (\<lambda>i. \<not> lacks_labels (mix_splits_y ! i)) [0..<n_folds (cvap_init 3)] = [0, 2]"
    unfolding n3 u3 using l3 by simp
  have s0: "mix_estimator (fst (mix_splits_x ! 0)) (fst (mix_splits_y ! 0))
              (snd (mix_splits_x ! 0)) = Inr [0, 1]"
    "snd (mix_splits_y ! 0) = [0, 1]"
    "mix_estimator (fst (mix_splits_x ! 2)) (fst (mix_splits_y ! 2))
              (snd (mix_splits_x ! 2)) = Inr [2, 3]"
    "snd (mix_splits_y ! 2) = [0, 1]"
    by (simp_all add: mix_estimator_def mix_splits_x_def mix_splits_y_def)
  from cvap_fit_skips_folds[OF m1 m2 m3, of mix_estimator, THEN conjunct1]
  have m5: "cvap_fit mix_splitter mix_estimator (cvap_init 3) mix_labels ex_X =
      Inr \<lparr>cv_fitted = True, n_folds = 3, ivaps = Some [mix_ivap_a, mix_ivap_b]\<rparr>"
    unfolding us by (simp add: s0 fit_mix_ivaps cvap_init_def)
  have e1: "card (set ex_labels) = 2"
    by (simp add: length_np_unique[symmetric] ex_labels_def np_unique_simps)
  have n5: "n_folds (cvap_init 5) = 5" by (simp add: cvap_init_def)
  have e2: "create_n_splits ex_splitter ex_X ex_labels (n_folds (cvap_init 5)) =
      Inr (ex_splits_x, ex_splits_y)"
    unfolding n5 by (rule ex_create_n_splits)
  have e3: "length ex_splits_y = n_folds (cvap_init 5)"
    by (simp add: ex_splits_y_def cvap_init_def)
  have e4: "\<forall>i<n_folds (cvap_init 5). lacks_labels (ex_splits_y ! i)"
  proof (intro allI impI)
    fix i assume "i < n_folds (cvap_init 5)"
    then have i: "ex_splits_y ! i \<in> set ex_splits_y" by (simp add: e3)
    have "\<forall>b\<in>set (map lacks_labels ex_splits_y). b" unfolding ex_lacks_labels by simp
    then have "\<forall>ys\<in>set ex_splits_y. lacks_labels ys" by simp
    with i show "lacks_labels (ex_splits_y ! i)" by blast
  qed
  from cvap_fit_skips_folds[OF e1 e2 e3, of ex_estimator, THEN conjunct2, THEN mp, OF e4]
  have e5: "cvap_fit ex_splitter ex_estimator (cvap_init 5) ex_labels ex_X =
     Inr \<lparr>cv_fitted = True, n_folds = 5, ivaps = Some []\<rparr>"
    by (simp add: cvap_init_def)
  from m1 m2 m3 m4 fit_mix_ivaps m5 e1 e2 e3 ex_lacks_labels e5 show ?thesis
    by (intro conjI)
qed

lemma fit_ex_ivap: "fit [1] [3] = Inr ex_ivap"
  unfolding ex_ivap_def by code_simp

subsection \<open>Prediction of the cross calibrator\<close>

lemma predict_intervall_empty:
  "unique_elements iv \<noteq> None \<Longrightarrow> F0 iv \<noteq> None \<Longrightarrow> F1 iv \<noteq> None \<Longrightarrow>
     predict_intervall iv [] = Inr []"
  by (auto simp: predict_intervall_def lookup_p0_p1_def)

lemma cvap_predict_proba_no_folds:
  "cv_fitted cv \<Longrightarrow> ivaps cv = Some [] \<Longrightarrow>
     cvap_predict_proba gm cv scores = Inr (map (\<lambda>s. 0) scores)"
  by (simp add: cvap_predict_proba_def)

lemma predict_intervall_length:
  "predict_intervall iv scores = Inr r \<Longrightarrow> length r = length scores"
  by (auto simp: predict_intervall_def lookup_p0_p1_def Let_def
      split: option.splits sum.splits dest!: collect_length)

lemma collect_intervall_length:
  "collect (\<lambda>calibrator. predict_intervall calibrator scores) ivs = Inr res \<Longrightarrow>
     \<forall>fold\<in>set res. length fold = length scores"
proof (induction ivs arbitrary: res)
  case (Cons iv ivs)
  then obtain r rs where r: "predict_intervall iv scores = Inr r"
    "collect (\<lambda>calibrator. predict_intervall calibrator scores) ivs = Inr rs" "res = r # rs"
    by (auto split: sum.splits)
  with Cons.IH[OF r(2)] predict_intervall_length[OF r(1)] show ?case by simp
qed simp

lemma gmean_axis0_map:
  assumes "\<forall>fold\<in>set res. length fold = n"
  shows "gmean_axis0 gm n (map (map f) res) = map (\<lambda>j. gm (map (\<lambda>fold. f (fold ! j)) res)) [0..<n]"
proof -
  have "map (\<lambda>row. row ! j) (map (map f) res) = map (\<lambda>fold. f (fold ! j)) res" if "j < n" for j
    using assms that by (induction res) auto
  then show ?thesis by (simp add: gmean_axis0_def cong: map_cong)
qed

lemma cvap_predict_proba_formula:
  assumes "cv_fitted cv" "ivaps cv = Some ivs" "ivs \<noteq> []" "scores \<noteq> []"
    and "collect (\<lambda>calibrator. predict_intervall calibrator scores) ivs = Inr res"
  shows "cvap_predict_proba gm cv scores =
     Inr (map (\<lambda>j. gm (map (\<lambda>fold. of_rat (snd (fold ! j))) res) /
                     (gm (map (\<lambda>fold. 1 - of_rat (fst (fold ! j))) res) +
                      gm (map (\<lambda>fold. of_rat (snd (fold ! j))) res)))
            [0..<length scores])"
proof -
  have ne: "res \<noteq> []" using collect_length[OF assms(5)] assms(3) by auto
  note len = collect_intervall_length[OF assms(5)]
  have p1: "gmean_axis0 gm (length scores) (map (map (\<lambda>pr. of_rat (snd pr))) res) =
      map (\<lambda>j. gm (map (\<lambda>fold. of_rat (snd (fold ! j))) res)) [0..<length scores]"
    by (rule gmean_axis0_map[OF len])
  have p0: "gmean_axis0 gm (length scores) (map (map (\<lambda>pr. 1 - of_rat (fst pr))) res) =
      map (\<lambda>j. gm (map (\<lambda>fold. 1 - of_rat (fst (fold ! j))) res)) [0..<length scores]"
    by (rule gmean_axis0_map[OF len])
  show ?thesis
    using assms(1-4) ne
    by (simp add: cvap_predict_proba_def assms(5) Let_def p1 p0 map_zip_map2 o_def)
qed

text \<open>
  Claim C5 holds for every non-empty vector of test scores (the lemmas above) but
  not for the empty vector: with a retained calibrator the stacked interval array
  has two dimensions only and its three-index read raises IndexError, whereas the
  inductive calibrator, and the cross calibrator without folds, return the empty
  vector.
\<close>

theorem cvap_predict_proba_empty_scores:
  "fit [1] [3] = Inr ex_ivap \<and>
   cvap_predict_proba gm ex_cvap [] = Inl IndexError \<and>
   predict_proba ex_ivap [] = Inr [] \<and>
   cvap_predict_proba gm \<lparr>cv_fitted = True, n_folds = 1, ivaps = Some []\<rparr> [] = Inr []"
proof -
  have "predict_intervall ex_ivap [] = Inr []"
    by (rule predict_intervall_empty) (simp_all add: ex_ivap_def)
  then have "cvap_predict_proba gm ex_cvap [] = Inl IndexError"
    by (simp add: cvap_predict_proba_def ex_cvap_def)
  moreover have "predict_proba ex_ivap [] = Inr []"
    by (simp add: predict_proba_def lookup_p0_p1_def ex_ivap_def)
  ultimately show ?thesis
    using fit_ex_ivap by (simp add: cvap_predict_proba_def)
qed

subsection \<open>Row normalisation of the calibrator front end\<close>

lemma normalize_row_nonzero:
  assumes "sum_list row \<noteq> 0"
  shows "None \<notin> set (normalize_row row)" "sum_list (map the (normalize_row row)) = 1"
proof -
  from assms have n: "normalize_row row = map (\<lambda>v. Some (v / sum_list row)) row"
    by (simp add: normalize_row_def np_true_divide_def)
  show "None \<notin> set (normalize_row row)" by (auto simp: n)
  have "sum_list (map (\<lambda>v. v / c) xs) = sum_list xs / c" for c and xs :: "'a list"
    by (induction xs) (simp_all add: add_divide_distrib)
  then have "sum_list (map (\<lambda>v. v / sum_list row) row) = sum_list row / sum_list row" .
  with assms show "sum_list (map the (normalize_row row)) = 1" by (simp add: n o_def)
qed

lemma normalize_row_zero:
  "sum_list row = 0 \<Longrightarrow> \<forall>v\<in>set (normalize_row row). v = None"
  by (simp add: normalize_row_def np_true_divide_def)

lemma set_column_shape:
  assumes "set_column n cols idx v = Inr cols'" "\<forall>c\<in>set cols. length c = n"
  shows "length cols' = length cols \<and> (\<forall>c\<in>set cols'. length c = n)"
  using assms
  by (auto simp: set_column_def split: if_splits dest!: set_update_subset_insert[THEN subsetD])

lemma fill_columns_shape:
  assumes "fill_columns n cals splits cols = Inr cols'" "\<forall>c\<in>set cols. length c = n"
  shows "length cols' = length cols \<and> (\<forall>c\<in>set cols'. length c = n)"
  using assms
proof (induction splits arbitrary: cols)
  case (Cons a splits)
  obtain idx split where a: "a = (idx, split)" by (cases a)
  from Cons.prems(1) obtain cal v c1 where
    s: "set_column n cols idx v = Inr c1" and f: "fill_columns n cals splits c1 = Inr cols'"
    by (auto simp: a split: sum.splits)
  from set_column_shape[OF s Cons.prems(2)] Cons.IH[OF f] show ?case by auto
qed simp

lemma rows_of_shape:
  "length (rows_of n cols) = n \<and> (\<forall>row\<in>set (rows_of n cols). length row = length cols)"
  by (auto simp: rows_of_def)

text \<open>
  Claim C9 does not hold of the code. The division by the row sum is the step
  that is meant to put every row on the probability simplex, and it has no guard
  for a row that sums to 0. The cross calibrator that \<open>cvap_fit\<close> returns for the
  labels \<open>ex_labels\<close> retained no fold and predicts 0 for every score; with the
  binary calibrators in that state, the row of one sample is \<open>[0, 0, 0]\<close>, its sum
  is 0, and every entry of the returned row is \<open>0 / 0\<close>, not a number: the row does
  not sum to 1.
\<close>

theorem calibrator_predict_proba_zero_row:
  "cvap_fit ex_splitter ex_estimator (cvap_init 5) ex_labels ex_X = Inr ex_cvap_nofolds \<and>
   multiclass ex_calibrator \<and>
   calibrators ex_calibrator = replicate 3 (cvap_predict_proba gmean ex_cvap_nofolds) \<and>
   cvap_predict_proba gmean ex_cvap_nofolds [1 / 3] = Inr [0] \<and>
   calibrator_predict_proba ex_calibrator [7] = Inr [[None, None, None]]"
proof -
  have "calibrator_predict_proba ex_calibrator [7] = Inr [[None, None, None]]"
    by (simp add: calibrator_predict_proba_def ex_calibrator_def fill_columns.simps
      np_get_def cvap_predict_proba_def set_column_def rows_of_def normalize_row_def
      np_true_divide_def upt_rec numeral_3_eq_3 ex_cvap_nofolds_def)
  moreover have "cvap_predict_proba gmean ex_cvap_nofolds [1 / 3] = Inr [0]"
    by (simp add: cvap_predict_proba_def ex_cvap_nofolds_def)
  ultimately show ?thesis
    using cvap_fit_ex_labels by (simp add: ex_calibrator_def)
qed

subsection \<open>Slopes and turns\<close>




lemma frac_le_frac:
  fixes n1 :: rat
  assumes "0 < d1" "0 < d2"
  shows "n1 / d1 \<le> n2 / d2 \<longleftrightarrow> n1 * d2 \<le> n2 * d1"
  using assms by (simp add: pos_divide_le_eq pos_le_divide_eq mult.commute)

lemma slope_sym: "slope a b = slope b a"
  unfolding slope_def by (metis minus_diff_eq minus_divide_divide)



lemma left_turn_above:
  assumes "fst a < fst b" "\<not> non_left_angle_turn a b c"
  shows "at_or_above c (slope a b) a b"
proof -
  have "(snd b - snd a) * (fst c - fst a) \<le> (snd c - snd a) * (fst b - fst a)"
    using assms(2)
    by (simp add: non_left_angle_turn_def np_cross_def point_subtraction_def not_le algebra_simps)
  then have "slope a b * (fst c - fst a) \<le> snd c - snd a"
    using assms(1) by (simp add: slope_def pos_divide_le_eq mult.commute)
  then show ?thesis by (simp add: at_or_above_def)
qed

lemma right_turn_above:
  assumes "fst b < fst a" "\<not> non_right_angle_turn a b c"
  shows "at_or_above c (slope a b) a b"
proof -
  have "(snd a - snd b) * (fst c - fst a) \<le> (snd c - snd a) * (fst a - fst b)"
    using assms(2)
    by (simp add: non_right_angle_turn_def np_cross_def point_subtraction_def not_le algebra_simps)
  moreover have "slope a b = (snd a - snd b) / (fst a - fst b)"
    using slope_sym[of a b] by (simp add: slope_def)
  ultimately have "slope a b * (fst c - fst a) \<le> snd c - snd a"
    using assms(1) by (simp add: pos_divide_le_eq mult.commute)
  then show ?thesis by (simp add: at_or_above_def)
qed











subsection \<open>Popping the stack\<close>











subsection \<open>The initial stack of \<open>compute_f1\<close>\<close>






subsection \<open>The loop of \<open>compute_f1\<close>\<close>

lemma at_or_above_cong: "at_or_above p s T X = at_or_above p s T Y"
  by (simp add: at_or_above_def)


lemma fst_sh1 [simp]: "fst (sh1 p) = fst p - 1"
  by (simp add: sh1_def point_subtraction_def)

lemma snd_sh1 [simp]: "snd (sh1 p) = snd p - 1"
  by (simp add: sh1_def point_subtraction_def)

lemma fst_sh0 [simp]: "fst (sh0 p) = fst p + 1"
  by (simp add: sh0_def point_addition_def)

lemma snd_sh0 [simp]: "snd (sh0 p) = snd p"
  by (simp add: sh0_def point_addition_def)







subsection \<open>The initial stack and the loop of \<open>compute_f0\<close>\<close>










subsection \<open>The cumulative sum diagram\<close>







subsection \<open>Monotonicity of \<open>F0\<close> and \<open>F1\<close>, and the interval of a prediction\<close>















end
